theory Spec2Isabelle
  imports Main "HOL-Library.AList" "HOL-Library.Product_Lexorder" "HOL-Library.Multiset"
begin

section \<open>The job queue of src/lib/modules/queue.js\<close>

text \<open>
  The class \<open>JobQueue\<close> keeps its jobs in a JavaScript \<open>Map\<close> from job id to job object.
  A \<open>Map\<close> iterates in insertion order, \<open>set\<close> on a present key replaces the value in
  place, \<open>set\<close> on an absent key appends, and \<open>delete\<close> removes the entry. The model is
  an association list in insertion order with \<open>AList.update\<close>, \<open>AList.delete\<close>,
  \<open>map_of\<close> and \<open>AList.map_entry\<close> (mutation of the stored object). Keys of a
  \<open>Map\<close> are unique; theorems that depend on it assume \<open>distinct (map fst (jobs q))\<close>.

  Numbers are modelled as integers (timestamps in milliseconds, priorities, delays) and
  as naturals (the counters \<open>attempts\<close> and \<open>maxRetries\<close>); the floating point of
  JavaScript is not modelled. Every operation reads the clock once: its parameter
  \<open>now\<close> stands for the value of \<open>Date.now()\<close> during the call. Console output and
  event emission change no state and are left out.
\<close>

subsection \<open>Data\<close>

datatype jobStatus = Waiting | Active | Completed | Failed

record job =
  jobId :: string
  jobType :: string
  data :: string
  priority :: int
  delay :: int
  maxRetries :: nat
  timeout :: int
  status :: jobStatus
  attempts :: nat
  createdAt :: int
  processAt :: int
  updatedAt :: int
  result :: "string option"
  error :: "string option"
  progress :: int
  logs :: "(int \<times> string) list"
  startedAt :: "int option"
  completedAt :: "int option"
  failedAt :: "int option"
  processingTime :: "int option"

text \<open>The \<open>options\<close> argument of \<open>add\<close>; \<open>None\<close> is an absent property.\<close>

record options =
  optPriority :: "int option"
  optDelay :: "int option"
  optMaxRetries :: "nat option"
  optTimeout :: "int option"

text \<open>
  The part of \<open>this.config\<close> the queue reads. The constructor writes
  \<open>maxRetries: config.maxRetries || 3, retryDelay: config.retryDelay || 5000,
  timeout: config.timeout || 300000, ...config\<close>: the spread comes last, so a property
  the caller gives wins over the default, whatever its value.
\<close>

record config =
  cfgMaxRetries :: nat
  retryDelay :: int
  cfgTimeout :: int

record userConfig =
  userMaxRetries :: "nat option"
  userRetryDelay :: "int option"
  userTimeout :: "int option"

record stats =
  totalJobs :: int
  completedJobs :: int
  failedJobs :: int
  activeJobs :: int
  waitingJobs :: int
  delayedJobs :: int

type_synonym store = "(string \<times> job) list"

record queue =
  config :: config
  jobs :: store
  processors :: "string list"
  stats :: stats

text \<open>
  What the registered processor does is not part of the queue: the settled outcome of
  \<open>Promise.race([processor(jobContext), this.createTimeout(job.timeout)])\<close> is a
  parameter. \<open>Rejected\<close> carries the message of the thrown error or of the timeout.
\<close>

datatype outcome = Resolved string | Rejected string

subsection \<open>Construction and \<open>add\<close>\<close>

definition newQueue :: "userConfig \<Rightarrow> queue" where
  "newQueue c =
     \<lparr> config = \<lparr> cfgMaxRetries = (case userMaxRetries c of None \<Rightarrow> 3 | Some n \<Rightarrow> n),
                  retryDelay = (case userRetryDelay c of None \<Rightarrow> 5000 | Some d \<Rightarrow> d),
                  cfgTimeout = (case userTimeout c of None \<Rightarrow> 300000 | Some t \<Rightarrow> t) \<rparr>,
       jobs = [],
       processors = [],
       stats = \<lparr> totalJobs = 0, completedJobs = 0, failedJobs = 0,
                 activeJobs = 0, waitingJobs = 0, delayedJobs = 0 \<rparr> \<rparr>"

text \<open>JavaScript's \<open>x || d\<close> on an optional number: absent and \<open>0\<close> both give \<open>d\<close>.\<close>

definition orElse :: "'a::zero option \<Rightarrow> 'a \<Rightarrow> 'a" where
  "orElse v d = (case v of None \<Rightarrow> d | Some x \<Rightarrow> if x = 0 then d else x)"

text \<open>
  \<open>add(jobType, data, options)\<close>. The id drawn by \<open>generateJobId\<close> (16 random bytes, in
  hexadecimal) is the parameter \<open>newId\<close>. The function has no check of its arguments
  and no failing branch; it returns the job it stored.
\<close>

definition add :: "queue \<Rightarrow> string \<Rightarrow> string \<Rightarrow> string \<Rightarrow> options \<Rightarrow> int \<Rightarrow> job \<times> queue" where
  "add q newId jobType' data' opts now =
     (let j = \<lparr> jobId = newId,
                 jobType = jobType',
                 data = data',
                 priority = orElse (optPriority opts) 0,
                 delay = orElse (optDelay opts) 0,
                 maxRetries = orElse (optMaxRetries opts) (cfgMaxRetries (config q)),
                 timeout = orElse (optTimeout opts) (cfgTimeout (config q)),
                 status = Waiting,
                 attempts = 0,
                 createdAt = now,
                 processAt = now + orElse (optDelay opts) 0,
                 updatedAt = now,
                 result = None,
                 error = None,
                 progress = 0,
                 logs = [],
                 startedAt = None,
                 completedAt = None,
                 failedAt = None,
                 processingTime = None \<rparr>;
          st = stats q;
          st1 = st\<lparr> totalJobs := totalJobs st + 1, waitingJobs := waitingJobs st + 1 \<rparr>;
          st2 = (if delay j > 0 then st1\<lparr> delayedJobs := delayedJobs st1 + 1 \<rparr> else st1)
      in (j, q\<lparr> jobs := AList.update newId j (jobs q), stats := st2 \<rparr>))"


definition process :: "queue \<Rightarrow> string \<Rightarrow> queue" where
  "process q jobType' =
     q\<lparr> processors := (if jobType' \<in> set (processors q) then processors q
                        else processors q @ [jobType']) \<rparr>"

subsection \<open>Statistics\<close>

definition countJobs :: "(job \<Rightarrow> bool) \<Rightarrow> store \<Rightarrow> int" where
  "countJobs P js = int (length (filter P (map snd js)))"

definition updateStats :: "queue \<Rightarrow> int \<Rightarrow> queue" where
  "updateStats q now =
     q\<lparr> stats := (stats q)
          \<lparr> activeJobs := countJobs (\<lambda>j. status j = Active) (jobs q),
            waitingJobs := countJobs (\<lambda>j. status j = Waiting) (jobs q),
            delayedJobs := countJobs (\<lambda>j. status j = Waiting \<and> processAt j > now) (jobs q),
            completedJobs := countJobs (\<lambda>j. status j = Completed) (jobs q),
            failedJobs := countJobs (\<lambda>j. status j = Failed) (jobs q) \<rparr> \<rparr>"

text \<open>
  \<open>getStats()\<close> calls \<open>updateStats\<close> and returns \<open>{...this.stats, ...}\<close>; the model
  returns the six counters it spreads (the average duration and the lists of workers
  and processors are left out).
\<close>

definition getStats :: "queue \<Rightarrow> int \<Rightarrow> stats \<times> queue" where
  "getStats q now = (let q' = updateStats q now in (stats q', q'))"

subsection \<open>Listing, removal, cleaning\<close>

text \<open>
  The comparator of \<open>getJobs\<close>: \<open>b.priority - a.priority\<close> when the priorities differ,
  \<open>a.createdAt - b.createdAt\<close> otherwise. \<open>Array.prototype.sort\<close> is stable; the model
  is the stable insertion sort by that comparator.
\<close>

definition compareJobs :: "job \<Rightarrow> job \<Rightarrow> int" where
  "compareJobs a b =
     (if priority a \<noteq> priority b then priority b - priority a
      else createdAt a - createdAt b)"

fun insertJob :: "job \<Rightarrow> job list \<Rightarrow> job list" where
  "insertJob a [] = [a]"
| "insertJob a (b # bs) = (if compareJobs a b \<le> 0 then a # b # bs else b # insertJob a bs)"

definition sortJobs :: "job list \<Rightarrow> job list" where
  "sortJobs js = foldr insertJob js []"

text \<open>
  \<open>getJobs(status = null, limit = 50)\<close>; \<open>limit\<close> is a count, \<open>slice(0, limit)\<close> keeps
  the first \<open>limit\<close> elements.
\<close>

definition getJobs :: "queue \<Rightarrow> jobStatus option \<Rightarrow> nat \<Rightarrow> job list" where
  "getJobs q statusFilter limit =
     (let all = map snd (jobs q);
          filtered = (case statusFilter of None \<Rightarrow> all
                      | Some s \<Rightarrow> filter (\<lambda>j. status j = s) all)
      in take limit (sortJobs filtered))"

definition remove :: "queue \<Rightarrow> string \<Rightarrow> int \<Rightarrow> bool \<times> queue" where
  "remove q k now =
     (case map_of (jobs q) k of
        None \<Rightarrow> (False, q)
      | Some j \<Rightarrow>
          if status j = Active then (False, q)
          else (True, updateStats (q\<lparr> jobs := AList.delete k (jobs q) \<rparr>) now))"

definition isOld :: "int \<Rightarrow> job \<Rightarrow> bool" where
  "isOld cutoff j \<longleftrightarrow> (status j = Completed \<or> status j = Failed) \<and> updatedAt j < cutoff"

text \<open>
  The loop of \<open>clean\<close> walks the entries of the map and deletes the old ones by key
  while it counts them.
\<close>

fun cleanLoop :: "int \<Rightarrow> store \<Rightarrow> store \<times> nat \<Rightarrow> store \<times> nat" where
  "cleanLoop cutoff [] acc = acc"
| "cleanLoop cutoff ((k, j) # rest) (js, cleaned) =
     (if isOld cutoff j then cleanLoop cutoff rest (AList.delete k js, cleaned + 1)
      else cleanLoop cutoff rest (js, cleaned))"

definition clean :: "queue \<Rightarrow> int \<Rightarrow> int \<Rightarrow> nat \<times> queue" where
  "clean q olderThan now =
     (let cutoff = now - olderThan;
          (js, cleaned) = cleanLoop cutoff (jobs q) (jobs q, 0);
          q1 = q\<lparr> jobs := js \<rparr>
      in (cleaned, if cleaned > 0 then updateStats q1 now else q1))"

subsection \<open>The scheduler\<close>

text \<open>
  \<open>getNextJob\<close> scans the values of the map with \<open>nextJob = null\<close> and
  \<open>highestPriority = -Infinity\<close>; \<open>None\<close> stands for both. A job replaces the candidate
  only when its priority is strictly greater.
\<close>

definition isReady :: "int \<Rightarrow> job \<Rightarrow> bool" where
  "isReady now j \<longleftrightarrow> status j = Waiting \<and> processAt j \<le> now"

definition exceeds :: "int \<Rightarrow> int option \<Rightarrow> bool" where
  "exceeds p highest = (case highest of None \<Rightarrow> True | Some h \<Rightarrow> p > h)"

fun scanJobs ::
  "int \<Rightarrow> store \<Rightarrow> (string \<times> job) option \<times> int option \<Rightarrow> (string \<times> job) option \<times> int option" where
  "scanJobs now [] acc = acc"
| "scanJobs now ((k, j) # rest) (nextJob, highestPriority) =
     (if isReady now j \<and> exceeds (priority j) highestPriority
      then scanJobs now rest (Some (k, j), Some (priority j))
      else scanJobs now rest (nextJob, highestPriority))"

definition claimed :: "int \<Rightarrow> job \<Rightarrow> job" where
  "claimed now j = j\<lparr> status := Active, startedAt := Some now, updatedAt := now \<rparr>"

definition getNextJob :: "queue \<Rightarrow> int \<Rightarrow> job option \<times> queue" where
  "getNextJob q now =
     (case fst (scanJobs now (jobs q) (None, None)) of
        None \<Rightarrow> (None, q)
      | Some (k, j) \<Rightarrow>
          (Some (claimed now j),
           q\<lparr> jobs := AList.map_entry k (claimed now) (jobs q),
              stats := (stats q)\<lparr> waitingJobs := waitingJobs (stats q) - 1,
                                  activeJobs := activeJobs (stats q) + 1 \<rparr> \<rparr>))"

subsection \<open>Execution, completion, failure and retry\<close>

definition completeJob :: "queue \<Rightarrow> string \<Rightarrow> string \<Rightarrow> int \<Rightarrow> queue" where
  "completeJob q k res now =
     q\<lparr> jobs := AList.map_entry k
                  (\<lambda>j. j\<lparr> status := Completed, result := Some res, completedAt := Some now,
                          processingTime := map_option (\<lambda>s. now - s) (startedAt j),
                          updatedAt := now, progress := 100 \<rparr>) (jobs q),
        stats := (stats q)\<lparr> activeJobs := activeJobs (stats q) - 1,
                            completedJobs := completedJobs (stats q) + 1 \<rparr> \<rparr>"

definition failJob :: "queue \<Rightarrow> string \<Rightarrow> string \<Rightarrow> int \<Rightarrow> queue" where
  "failJob q k message now =
     q\<lparr> jobs := AList.map_entry k
                  (\<lambda>j. j\<lparr> status := Failed, error := Some message, failedAt := Some now,
                          processingTime := map_option (\<lambda>s. now - s) (startedAt j),
                          updatedAt := now \<rparr>) (jobs q),
        stats := (stats q)\<lparr> activeJobs := activeJobs (stats q) - 1,
                            failedJobs := failedJobs (stats q) + 1 \<rparr> \<rparr>"

text \<open>
  \<open>retryJob\<close>: \<open>job.attempts++\<close> comes first, so \<open>Math.pow(2, job.attempts - 1)\<close> is
  taken at the incremented value.
\<close>

definition retried :: "int \<Rightarrow> string \<Rightarrow> int \<Rightarrow> job \<Rightarrow> job" where
  "retried baseDelay message now j =
     (let n = attempts j + 1
      in j\<lparr> attempts := n, status := Waiting,
            processAt := now + baseDelay * 2 ^ (n - 1),
            updatedAt := now, error := Some message \<rparr>)"

definition retryJob :: "queue \<Rightarrow> string \<Rightarrow> string \<Rightarrow> int \<Rightarrow> queue" where
  "retryJob q k message now =
     q\<lparr> jobs := AList.map_entry k (retried (retryDelay (config q)) message now) (jobs q),
        stats := (stats q)\<lparr> activeJobs := activeJobs (stats q) - 1,
                            waitingJobs := waitingJobs (stats q) + 1 \<rparr> \<rparr>"

definition noProcessorMessage :: "string \<Rightarrow> string" where
  "noProcessorMessage t = ''No processor found for job type: '' @ t"

text \<open>
  \<open>executeJob(job, worker)\<close> on the job stored under \<open>k\<close>. The flag tells whether the
  processor was called.
\<close>

definition executeJob :: "queue \<Rightarrow> string \<Rightarrow> outcome \<Rightarrow> int \<Rightarrow> bool \<times> queue" where
  "executeJob q k oc now =
     (case map_of (jobs q) k of
        None \<Rightarrow> (False, q)
      | Some j \<Rightarrow>
          if jobType j \<notin> set (processors q)
          then (False, failJob q k (noProcessorMessage (jobType j)) now)
          else (True,
                case oc of
                  Resolved res \<Rightarrow> completeJob q k res now
                | Rejected message \<Rightarrow>
                    if attempts j < maxRetries j then retryJob q k message now
                    else failJob q k message now))"

definition updateJobProgress :: "queue \<Rightarrow> string \<Rightarrow> int \<Rightarrow> int \<Rightarrow> queue" where
  "updateJobProgress q k percent now =
     q\<lparr> jobs := AList.map_entry k
                  (\<lambda>j. j\<lparr> progress := max 0 (min 100 percent), updatedAt := now \<rparr>) (jobs q) \<rparr>"

definition logJob :: "queue \<Rightarrow> string \<Rightarrow> string \<Rightarrow> int \<Rightarrow> queue" where
  "logJob q k message now =
     q\<lparr> jobs := AList.map_entry k (\<lambda>j. j\<lparr> logs := logs j @ [(now, message)] \<rparr>) (jobs q) \<rparr>"

text \<open>
  The callback \<open>add\<close> schedules with \<open>setTimeout\<close> for a job with a positive delay.
\<close>

definition delayElapsed :: "queue \<Rightarrow> string \<Rightarrow> queue" where
  "delayElapsed q k =
     (case map_of (jobs q) k of
        None \<Rightarrow> q
      | Some j \<Rightarrow>
          if status j = Waiting
          then q\<lparr> stats := (stats q)\<lparr> delayedJobs := delayedJobs (stats q) - 1 \<rparr> \<rparr>
          else q)"

subsection \<open>Runs of the queue\<close>

text \<open>
  A state of a run is the queue together with, for every job id, the number of calls of
  the processor for the job stored under it that have settled: \<open>executeJob\<close> is one
  step, taken when the race between the processor and the timeout settles, and that step
  counts the call. While a job is \<open>Active\<close> its current call is still to be counted.
  One step is one call of an operation between two suspension points of the event loop:
  \<^item> \<open>add\<close> stores a job under an id that is not in the map (the 16 random bytes are
    taken to be fresh) and starts its count at 0;
  \<^item> a worker claims a job with \<open>getNextJob\<close>;
  \<^item> \<open>executeJob\<close> settles for a job that a worker has claimed and not yet settled,
    that is, a stored job whose status is \<open>Active\<close> (the worker loop calls
    \<open>executeJob\<close> on the job \<open>getNextJob\<close> returned and on nothing else);
  \<^item> a processor reports progress or logs, at any time, for any job;
  \<^item> \<open>process\<close>, \<open>remove\<close>, \<open>clean\<close>, \<open>getStats\<close> and the delay timer run at any time.
\<close>

type_synonym runState = "queue \<times> (string \<Rightarrow> nat)"

inductive step :: "runState \<Rightarrow> runState \<Rightarrow> bool" where
  stepProcess: "step (q, n) (process q t, n)"
| stepAdd: "newId \<notin> fst ` set (jobs q) \<Longrightarrow>
            step (q, n) (snd (add q newId t d opts now), n(newId := 0))"
| stepClaim: "step (q, n) (snd (getNextJob q now), n)"
| stepExecute: "map_of (jobs q) k = Some j \<Longrightarrow> status j = Active \<Longrightarrow>
                step (q, n) (snd (executeJob q k oc now),
                             if fst (executeJob q k oc now) then n(k := n k + 1) else n)"
| stepProgress: "step (q, n) (updateJobProgress q k percent now, n)"
| stepLog: "step (q, n) (logJob q k message now, n)"
| stepRemove: "step (q, n) (snd (remove q k now), n)"
| stepClean: "step (q, n) (snd (clean q olderThan now), n)"
| stepStats: "step (q, n) (snd (getStats q now), n)"
| stepDelayElapsed: "step (q, n) (delayElapsed q k, n)"





subsection \<open>Dispatch order\<close>

text \<open>
  The jobs a worker claims when it calls \<open>getNextJob\<close> again and again at one clock
  value, until the call returns \<open>null\<close> (at most \<open>fuel\<close> calls).
\<close>

fun dispatchOrder :: "nat \<Rightarrow> queue \<Rightarrow> int \<Rightarrow> job list" where
  "dispatchOrder 0 q now = []"
| "dispatchOrder (Suc fuel) q now =
     (case getNextJob q now of
        (None, q') \<Rightarrow> []
      | (Some c, q') \<Rightarrow> c # dispatchOrder fuel q' now)"

text \<open>
  The order of \<open>getJobs\<close> as a key: \<open>compareJobs a b \<le> 0\<close> exactly when the key of
  \<open>a\<close> is at most the key of \<open>b\<close> in the lexicographic order of pairs.
\<close>

definition jobKey :: "job \<Rightarrow> int \<times> int" where
  "jobKey j = (- priority j, createdAt j)"

definition listedBefore :: "job \<Rightarrow> job \<Rightarrow> bool" where
  "listedBefore a b \<longleftrightarrow>
     priority a > priority b \<or> (priority a = priority b \<and> createdAt a \<le> createdAt b)"

definition createdInOrder :: "store \<Rightarrow> bool" where
  "createdInOrder js \<longleftrightarrow> sorted (map (\<lambda>e. createdAt (snd e)) js)"

subsection \<open>Example queues\<close>

text \<open>\<open>new JobQueue()\<close> and \<open>add(type, data)\<close> with the default \<open>{}\<close> arguments.\<close>

definition emptyConfig :: userConfig where
  "emptyConfig = \<lparr> userMaxRetries = None, userRetryDelay = None, userTimeout = None \<rparr>"

definition noOptions :: options where
  "noOptions = \<lparr> optPriority = None, optDelay = None, optMaxRetries = None, optTimeout = None \<rparr>"

definition withPriority :: "int \<Rightarrow> options" where
  "withPriority p = noOptions\<lparr> optPriority := Some p \<rparr>"

text \<open>Two jobs of equal priority; the clock stepped back between the two calls.\<close>

definition tieQueue :: queue where
  "tieQueue =
     snd (add (snd (add (newQueue emptyConfig) ''a'' ''resize'' ''x'' noOptions 10))
              ''b'' ''resize'' ''y'' noOptions 5)"

text \<open>Three jobs added at times 1, 2 and 3 with priorities 1, 5 and 5.\<close>

definition oneJob :: queue where
  "oneJob = snd (add (newQueue emptyConfig) ''a'' ''resize'' ''x'' (withPriority 1) 1)"

definition twoJobs :: queue where
  "twoJobs = snd (add oneJob ''b'' ''resize'' ''y'' (withPriority 5) 2)"

definition threeJobs :: queue where
  "threeJobs = snd (add twoJobs ''c'' ''resize'' ''z'' (withPriority 5) 3)"

definition threeCalls :: "string \<Rightarrow> nat" where
  "threeCalls = (\<lambda>k. 0)(''a'' := 0, ''b'' := 0, ''c'' := 0)"

text \<open>
  A processor is registered for \<open>resize\<close>; a worker claims at time 10 and its job
  resolves, or is rejected, at time 20.
\<close>

definition claimedQueue :: queue where
  "claimedQueue = snd (getNextJob (process threeJobs ''resize'') 10)"

definition completedQueue :: queue where
  "completedQueue = snd (executeJob claimedQueue ''b'' (Resolved ''done'') 20)"

definition rejectedQueue :: queue where
  "rejectedQueue = snd (executeJob claimedQueue ''b'' (Rejected ''boom'') 20)"

text \<open>No processor is registered; a worker claims at time 10.\<close>

definition orphanQueue :: queue where
  "orphanQueue = snd (getNextJob threeJobs 10)"









text \<open>A job added at time 0 with a delay of 100 milliseconds.\<close>

definition delayedQueue :: queue where
  "delayedQueue =
     snd (add (newQueue emptyConfig) ''d'' ''resize'' ''x'' (noOptions\<lparr> optDelay := Some 100 \<rparr>) 0)"


section \<open>Auxiliary facts\<close>

subsection \<open>Unfolding the example queues\<close>


lemmas ex_defs = tieQueue_def threeJobs_def twoJobs_def oneJob_def threeCalls_def emptyConfig_def noOptions_def withPriority_def newQueue_def
  add_def orElse_def Let_def

lemmas run_defs = claimedQueue_def completedQueue_def rejectedQueue_def orphanQueue_def
  process_def getNextJob_def isReady_def exceeds_def claimed_def executeJob_def completeJob_def
  failJob_def retryJob_def retried_def



subsection \<open>The store\<close>

text \<open>
  With unique keys the loop of \<open>clean\<close> is a filter: deleting by key removes the entry the
  loop is looking at and nothing else.
\<close>


lemma cleanLoop_eq:
  "cleanLoop c xs (js, n) =
     (filter (\<lambda>e. fst e \<notin> fst ` {x \<in> set xs. isOld c (snd x)}) js,
      n + length (filter (\<lambda>e. isOld c (snd e)) xs))"
proof (induction xs arbitrary: js n)
  case Nil
  then show ?case by simp
next
  case (Cons x xs)
  obtain k j where x: "x = (k, j)" by (cases x)
  show ?case
  proof (cases "isOld c j")
    case True
    have s: "{x \<in> set ((k, j) # xs). isOld c (snd x)} = insert (k, j) {x \<in> set xs. isOld c (snd x)}"
      using True by auto
    have "filter (\<lambda>e. fst e \<notin> fst ` {x \<in> set xs. isOld c (snd x)}) (AList.delete k js) =
          filter (\<lambda>e. fst e \<notin> fst ` {x \<in> set ((k, j) # xs). isOld c (snd x)}) js"
      unfolding s by (auto simp: AList.delete_eq intro!: filter_cong)
    with True show ?thesis by (simp add: x Cons.IH)
  next
    case False
    have "{x \<in> set ((k, j) # xs). isOld c (snd x)} = {x \<in> set xs. isOld c (snd x)}"
      using False by auto
    with False show ?thesis by (simp add: x Cons.IH)
  qed
qed

lemma clean_jobs:
  assumes "distinct (map fst js)"
  shows "cleanLoop c js (js, 0) =
           (filter (\<lambda>e. \<not> isOld c (snd e)) js, length (filter (\<lambda>e. isOld c (snd e)) js))"
proof -
  have "filter (\<lambda>e. fst e \<notin> fst ` {x \<in> set js. isOld c (snd x)}) js =
        filter (\<lambda>e. \<not> isOld c (snd e)) js"
  proof (rule filter_cong[OF refl])
    fix e assume e: "e \<in> set js"
    show "(fst e \<notin> fst ` {x \<in> set js. isOld c (snd x)}) = (\<not> isOld c (snd e))"
    proof
      assume "fst e \<notin> fst ` {x \<in> set js. isOld c (snd x)}"
      with e show "\<not> isOld c (snd e)" by force
    next
      assume n: "\<not> isOld c (snd e)"
      show "fst e \<notin> fst ` {x \<in> set js. isOld c (snd x)}"
      proof
        assume "fst e \<in> fst ` {x \<in> set js. isOld c (snd x)}"
        then obtain x where x: "x \<in> set js" "isOld c (snd x)" "fst x = fst e" by auto
        from assms x(1) e x(3) have "x = e"
          by (metis eq_key_imp_eq_value prod.collapse)
        with x(2) n show False by simp
      qed
    qed
  qed
  then show ?thesis by (simp add: cleanLoop_eq)
qed





lemma map_entry_at:
  "k \<notin> fst ` set pre \<Longrightarrow> AList.map_entry k f (pre @ (k, v) # post) = pre @ (k, f v) # post"
  by (induction pre) auto


subsection \<open>The scan of \<open>getNextJob\<close>\<close>

text \<open>
  The scan either keeps its candidate, and then no ready job exceeds the bound it started
  with, or it returns an entry of the list that is ready, has a strictly greater priority
  than every ready entry before it and a priority at least that of every ready entry
  after it.
\<close>


lemma scanJobs_spec:
  "scanJobs now xs (acc, h) = (r, h') \<Longrightarrow>
     (r = acc \<and> h' = h \<and> (\<forall>e \<in> set xs. isReady now (snd e) \<longrightarrow> \<not> exceeds (priority (snd e)) h)) \<or>
     (\<exists>pre k j post. xs = pre @ (k, j) # post \<and> r = Some (k, j) \<and> h' = Some (priority j) \<and>
        isReady now j \<and> exceeds (priority j) h \<and>
        (\<forall>e \<in> set pre. isReady now (snd e) \<longrightarrow> priority (snd e) < priority j) \<and>
        (\<forall>e \<in> set post. isReady now (snd e) \<longrightarrow> priority (snd e) \<le> priority j))"
proof (induction xs arbitrary: acc h)
  case Nil
  then show ?case by simp
next
  case (Cons x xs)
  obtain k0 j0 where x: "x = (k0, j0)" by (cases x)
  show ?case
  proof (cases "isReady now j0 \<and> exceeds (priority j0) h")
    case True
    with Cons.prems have s: "scanJobs now xs (Some (k0, j0), Some (priority j0)) = (r, h')"
      by (simp add: x)
    from Cons.IH[OF s] show ?thesis
    proof
      assume a: "r = Some (k0, j0) \<and> h' = Some (priority j0) \<and>
        (\<forall>e\<in>set xs. isReady now (snd e) \<longrightarrow> \<not> exceeds (priority (snd e)) (Some (priority j0)))"
      have le: "\<forall>e\<in>set xs. isReady now (snd e) \<longrightarrow> priority (snd e) \<le> priority j0"
        using a by (auto simp: exceeds_def)
      show ?thesis
        apply (rule disjI2)
        apply (rule exI[of _ "[]"], rule exI[of _ k0], rule exI[of _ j0], rule exI[of _ xs])
        using a True le by (simp add: x)
    next
      assume "\<exists>pre k j post. xs = pre @ (k, j) # post \<and> r = Some (k, j) \<and> h' = Some (priority j) \<and>
        isReady now j \<and> exceeds (priority j) (Some (priority j0)) \<and>
        (\<forall>e \<in> set pre. isReady now (snd e) \<longrightarrow> priority (snd e) < priority j) \<and>
        (\<forall>e \<in> set post. isReady now (snd e) \<longrightarrow> priority (snd e) \<le> priority j)"
      then obtain pre k j post where b: "xs = pre @ (k, j) # post" "r = Some (k, j)"
        "h' = Some (priority j)" "isReady now j" "priority j0 < priority j"
        "\<forall>e \<in> set pre. isReady now (snd e) \<longrightarrow> priority (snd e) < priority j"
        "\<forall>e \<in> set post. isReady now (snd e) \<longrightarrow> priority (snd e) \<le> priority j"
        by (auto simp: exceeds_def)
      have 1: "x # xs = (x # pre) @ (k, j) # post" using b(1) by simp
      have 2: "exceeds (priority j) h" using True b(5) by (auto simp: exceeds_def split: option.splits)
      have 3: "\<forall>e \<in> set (x # pre). isReady now (snd e) \<longrightarrow> priority (snd e) < priority j"
        using b(5,6) by (simp add: x)
      from 1 2 3 b show ?thesis by blast
    qed
  next
    case False
    with Cons.prems have s: "scanJobs now xs (acc, h) = (r, h')"
      by (auto simp add: x)
    from Cons.IH[OF s] show ?thesis
    proof
      assume a: "r = acc \<and> h' = h \<and> (\<forall>e\<in>set xs. isReady now (snd e) \<longrightarrow> \<not> exceeds (priority (snd e)) h)"
      with False show ?thesis by (auto simp: x)
    next
      assume "\<exists>pre k j post. xs = pre @ (k, j) # post \<and> r = Some (k, j) \<and> h' = Some (priority j) \<and>
        isReady now j \<and> exceeds (priority j) h \<and>
        (\<forall>e \<in> set pre. isReady now (snd e) \<longrightarrow> priority (snd e) < priority j) \<and>
        (\<forall>e \<in> set post. isReady now (snd e) \<longrightarrow> priority (snd e) \<le> priority j)"
      then obtain pre k j post where b: "xs = pre @ (k, j) # post" "r = Some (k, j)"
        "h' = Some (priority j)" "isReady now j" "exceeds (priority j) h"
        "\<forall>e \<in> set pre. isReady now (snd e) \<longrightarrow> priority (snd e) < priority j"
        "\<forall>e \<in> set post. isReady now (snd e) \<longrightarrow> priority (snd e) \<le> priority j"
        by blast
      have 1: "x # xs = (x # pre) @ (k, j) # post" using b(1) by simp
      have "isReady now j0 \<longrightarrow> priority j0 < priority j"
        using False b(5) by (auto simp: exceeds_def split: option.splits)
      then have 3: "\<forall>e \<in> set (x # pre). isReady now (snd e) \<longrightarrow> priority (snd e) < priority j"
        using b(6) by (simp add: x)
      from 1 3 b show ?thesis by blast
    qed
  qed
qed

lemma scanJobs_initial:
  "fst (scanJobs now xs (None, None)) = None \<longleftrightarrow> (\<forall>e \<in> set xs. \<not> isReady now (snd e))"
  "fst (scanJobs now xs (None, None)) = Some (k, j) \<Longrightarrow>
     \<exists>pre post. xs = pre @ (k, j) # post \<and> isReady now j \<and>
        (\<forall>e \<in> set pre. isReady now (snd e) \<longrightarrow> priority (snd e) < priority j) \<and>
        (\<forall>e \<in> set post. isReady now (snd e) \<longrightarrow> priority (snd e) \<le> priority j)"
proof -
  obtain r h' where s: "scanJobs now xs (None, None) = (r, h')" by (cases "scanJobs now xs (None, None)")
  note sp = scanJobs_spec[OF s]
  show "fst (scanJobs now xs (None, None)) = None \<longleftrightarrow> (\<forall>e \<in> set xs. \<not> isReady now (snd e))"
    using sp by (auto simp: s exceeds_def)
  show "fst (scanJobs now xs (None, None)) = Some (k, j) \<Longrightarrow>
     \<exists>pre post. xs = pre @ (k, j) # post \<and> isReady now j \<and>
        (\<forall>e \<in> set pre. isReady now (snd e) \<longrightarrow> priority (snd e) < priority j) \<and>
        (\<forall>e \<in> set post. isReady now (snd e) \<longrightarrow> priority (snd e) \<le> priority j)"
    using sp by (auto simp: s)
qed



lemma not_ready_claimed: "\<not> isReady now (claimed t j)"
  by (simp add: isReady_def claimed_def)


subsection \<open>The order of \<open>getJobs\<close>\<close>


lemma compareJobs_jobKey: "compareJobs a b \<le> 0 \<longleftrightarrow> jobKey a \<le> jobKey b"
  by (auto simp: compareJobs_def jobKey_def)

lemma jobKey_listedBefore: "jobKey a \<le> jobKey b \<longleftrightarrow> listedBefore a b"
  by (auto simp: listedBefore_def jobKey_def)

lemma insertJob_insort: "insertJob a bs = insort_key jobKey a bs"
  by (induction bs) (simp_all add: compareJobs_jobKey)

lemma sortJobs_sort_key: "sortJobs js = sort_key jobKey js"
  by (simp add: sortJobs_def sort_key_def insertJob_insort[abs_def])

lemma sorted_wrt_sortJobs: "sorted_wrt listedBefore (sortJobs js)"
proof -
  have "sorted (map jobKey (sort_key jobKey js))" by simp
  then have "sorted_wrt (\<lambda>a b. jobKey a \<le> jobKey b) (sort_key jobKey js)"
    by (simp only: sorted_map)
  then show ?thesis
    by (simp only: sortJobs_sort_key jobKey_listedBefore)
qed

lemma sort_key_head:
  fixes f :: "'a \<Rightarrow> 'b::linorder"
  assumes "\<forall>x \<in> set pre. f m < f x" and "\<forall>x \<in> set post. f m \<le> f x"
  shows "sort_key f (pre @ m # post) = m # sort_key f (pre @ post)"
  using assms
proof (induction pre)
  case Nil
  then show ?case by (simp add: insort_is_Cons)
next
  case (Cons x pre)
  then have "\<not> f x \<le> f m" by (simp add: not_le)
  with Cons show ?case by simp
qed

lemma dispatchOrder_sorted:
  assumes "distinct (map fst (jobs q))" and "createdInOrder (jobs q)"
    and "length (filter (isReady now) (map snd (jobs q))) \<le> fuel"
  shows "dispatchOrder fuel q now =
           map (claimed now) (sort_key jobKey (filter (isReady now) (map snd (jobs q))))"
  using assms
proof (induction fuel arbitrary: q)
  case 0
  from "0.prems"(3) have e: "filter (isReady now) (map snd (jobs q)) = []"
    by (simp only: le_zero_eq length_0_conv)
  show ?case unfolding e by simp
next
  case (Suc fuel)
  show ?case
  proof (cases "fst (scanJobs now (jobs q) (None, None))")
    case None
    then have "\<forall>e \<in> set (jobs q). \<not> isReady now (snd e)"
      using scanJobs_initial(1) by blast
    then have "filter (isReady now) (map snd (jobs q)) = []"
      by (simp add: filter_empty_conv)
    moreover have "getNextJob q now = (None, q)"
      using None by (simp add: getNextJob_def)
    ultimately show ?thesis by simp
  next
    case (Some e)
    obtain k m where e: "e = (k, m)" by (cases e)
    from scanJobs_initial(2)[OF Some[unfolded e]] obtain pre post where p:
      "jobs q = pre @ (k, m) # post" "isReady now m"
      "\<forall>e \<in> set pre. isReady now (snd e) \<longrightarrow> priority (snd e) < priority m"
      "\<forall>e \<in> set post. isReady now (snd e) \<longrightarrow> priority (snd e) \<le> priority m"
      by blast
    define q' where "q' = snd (getNextJob q now)"
    let ?rpre = "filter (isReady now) (map snd pre)"
    let ?rpost = "filter (isReady now) (map snd post)"
    have g: "getNextJob q now = (Some (claimed now m), q')"
      using Some by (simp add: getNextJob_def e q'_def)
    have kpre: "k \<notin> fst ` set pre"
      using Suc.prems(1) unfolding p(1) by auto
    have j': "jobs q' = pre @ (k, claimed now m) # post"
      using Some by (simp add: getNextJob_def e p(1) map_entry_at[OF kpre] q'_def)
    have r: "filter (isReady now) (map snd (jobs q)) = ?rpre @ m # ?rpost"
      using p(2) by (simp add: p(1))
    have r': "filter (isReady now) (map snd (jobs q')) = ?rpre @ ?rpost"
      by (simp add: j' not_ready_claimed)
    have d': "distinct (map fst (jobs q'))"
      using Suc.prems(1) by (simp add: j' p(1))
    have c': "createdInOrder (jobs q')"
      using Suc.prems(2) by (simp add: createdInOrder_def j' p(1) claimed_def)
    have l': "length (filter (isReady now) (map snd (jobs q'))) \<le> fuel"
      using Suc.prems(3) unfolding r r' by simp
    have before: "\<forall>x \<in> set ?rpre. jobKey m < jobKey x"
      using p(3) by (auto simp: jobKey_def)
    have "\<forall>e \<in> set post. createdAt m \<le> createdAt (snd e)"
      using Suc.prems(2) by (auto simp: createdInOrder_def p(1) sorted_append)
    then have after: "\<forall>x \<in> set ?rpost. jobKey m \<le> jobKey x"
      using p(4) by (auto simp: jobKey_def)
    have "dispatchOrder (Suc fuel) q now = claimed now m # dispatchOrder fuel q' now"
      by (simp add: g)
    also have "\<dots> = claimed now m # map (claimed now) (sort_key jobKey (?rpre @ ?rpost))"
      unfolding Suc.IH[OF d' c' l'] r' ..
    also have "\<dots> = map (claimed now) (sort_key jobKey (?rpre @ m # ?rpost))"
      by (simp only: sort_key_head[OF before after] list.map)
    finally show ?thesis unfolding r .
  qed
qed


subsection \<open>Every step keeps the invariant of a run\<close>



















subsection \<open>Creation order\<close>

text \<open>
  A step keeps \<open>createdAt\<close> in the insertion order of the map provided the job it
  stores, if any, was created no earlier than the jobs already stored: \<open>add\<close> appends
  under a new id, and no other operation changes \<open>createdAt\<close> or the order of the
  entries.
\<close>


lemma update_fresh: "k \<notin> fst ` set xs \<Longrightarrow> AList.update k v xs = xs @ [(k, v)]"
  by (induction xs) auto

lemma createdAt_map_entry:
  assumes "\<And>j. createdAt (f j) = createdAt j"
  shows "map (\<lambda>e. createdAt (snd e)) (AList.map_entry k f xs) = map (\<lambda>e. createdAt (snd e)) xs"
  by (induction xs) (auto simp: assms)

lemma createdInOrder_map_entry:
  assumes "\<And>j. createdAt (f j) = createdAt j" and "createdInOrder xs"
  shows "createdInOrder (AList.map_entry k f xs)"
  using assms(2) unfolding createdInOrder_def createdAt_map_entry[of f, OF assms(1)] .

lemma createdInOrder_filter: "createdInOrder xs \<Longrightarrow> createdInOrder (filter P xs)"
  unfolding createdInOrder_def by (rule sorted_filter)

lemma step_createdInOrder:
  assumes "step (q, n) (q', n')" and "createdInOrder (jobs q)"
    and "\<forall>e \<in> set (jobs q). \<forall>e' \<in> set (jobs q').
           fst e' \<notin> fst ` set (jobs q) \<longrightarrow> createdAt (snd e) \<le> createdAt (snd e')"
  shows "createdInOrder (jobs q')"
  using assms(1)
proof (cases rule: step.cases)
  case (stepProcess t)
  with assms(2) show ?thesis by (simp add: process_def)
next
  case (stepAdd newId t d opts now)
  obtain j where j: "jobs q' = jobs q @ [(newId, j)]"
    using stepAdd(1,3) by (simp add: add_def Let_def update_fresh)
  with assms(3) stepAdd(3) have "\<forall>e \<in> set (jobs q). createdAt (snd e) \<le> createdAt j"
    by auto
  with assms(2) show ?thesis
    unfolding j createdInOrder_def by (auto simp: sorted_append)
next
  case (stepClaim now)
  with assms(2) show ?thesis
    by (auto simp: getNextJob_def claimed_def split: option.splits
          intro!: createdInOrder_map_entry)
next
  case (stepExecute k0 j0 oc now)
  with assms(2) show ?thesis
    by (cases oc)
       (auto simp: executeJob_def failJob_def completeJob_def retryJob_def retried_def Let_def
          intro!: createdInOrder_map_entry)
next
  case (stepProgress k0 percent now)
  with assms(2) show ?thesis
    by (auto simp: updateJobProgress_def intro!: createdInOrder_map_entry)
next
  case (stepLog k0 message now)
  with assms(2) show ?thesis
    by (auto simp: logJob_def intro!: createdInOrder_map_entry)
next
  case (stepRemove k0 now)
  with assms(2) show ?thesis
    by (auto simp: remove_def updateStats_def AList.delete_eq split: option.splits
          intro!: createdInOrder_filter)
next
  case (stepClean olderThan now)
  with assms(2) show ?thesis
    by (auto simp: clean_def Let_def cleanLoop_eq updateStats_def intro!: createdInOrder_filter)
next
  case (stepStats now)
  with assms(2) show ?thesis by (simp add: getStats_def updateStats_def Let_def)
next
  case (stepDelayElapsed k0)
  with assms(2) show ?thesis by (simp add: delayElapsed_def split: option.splits)
qed


subsection \<open>The example runs are runs\<close>













section \<open>The claims\<close>

subsection \<open>C1: the job \<open>getNextJob\<close> selects\<close>

text \<open>
  Claim C1 says that the job \<open>getNextJob\<close> returns is waiting and ready, has the highest
  priority of the ready jobs and, among the ready jobs of that priority, the earliest
  \<open>createdAt\<close>. The scan never reads \<open>createdAt\<close>: it replaces its candidate only on a
  strictly greater priority, so among equals the entry that comes first in the map wins.
  In \<open>tieQueue\<close> the job stored first was created at 10 and the job stored second at 5;
  both are ready at 20 with priority 0, and the call returns the first.
\<close>


theorem getNextJob_createdAt_counterexample:
  "map_option jobId (fst (getNextJob tieQueue 20)) = Some ''a'' \<and>
   map_option createdAt (fst (getNextJob tieQueue 20)) = Some 10 \<and>
   map_option priority (fst (getNextJob tieQueue 20)) = Some 0 \<and>
   map_option status (map_of (jobs tieQueue) ''b'') = Some Waiting \<and>
   map_option processAt (map_of (jobs tieQueue) ''b'') = Some 5 \<and>
   map_option priority (map_of (jobs tieQueue) ''b'') = Some 0 \<and>
   map_option createdAt (map_of (jobs tieQueue) ''b'') = Some 5"
  by (simp add: ex_defs getNextJob_def isReady_def exceeds_def claimed_def)


text \<open>
  Claim C1 as amended: no job is selected exactly when no stored job is waiting and
  ready; a selected job is a stored job that is waiting with \<open>processAt \<le> now\<close>, its
  priority is at least that of every ready job, and every ready job stored before it has
  a different (so a lower) priority: among the ready jobs of the highest priority it is
  the one stored first. Whenever \<open>createdAt\<close> does not decrease along the insertion
  order of the map, this is a job with the earliest \<open>createdAt\<close> among them.
\<close>


theorem getNextJob_selects_first_stored:
  "(fst (getNextJob q now) = None \<longleftrightarrow> (\<forall>e \<in> set (jobs q). \<not> isReady now (snd e))) \<and>
   (\<forall>c. fst (getNextJob q now) = Some c \<longrightarrow>
      (\<exists>pre k j post. jobs q = pre @ (k, j) # post \<and> c = claimed now j \<and>
         status j = Waiting \<and> processAt j \<le> now \<and>
         (\<forall>e \<in> set (jobs q). isReady now (snd e) \<longrightarrow> priority (snd e) \<le> priority j) \<and>
         (\<forall>e \<in> set pre. isReady now (snd e) \<longrightarrow> priority (snd e) \<noteq> priority j) \<and>
         (createdInOrder (jobs q) \<longrightarrow>
            (\<forall>e \<in> set (jobs q). isReady now (snd e) \<and> priority (snd e) = priority j \<longrightarrow>
                createdAt j \<le> createdAt (snd e)))))"
proof (intro conjI allI impI)
  show "fst (getNextJob q now) = None \<longleftrightarrow> (\<forall>e \<in> set (jobs q). \<not> isReady now (snd e))"
    using scanJobs_initial(1)[of now "jobs q"]
    by (auto simp: getNextJob_def split: option.splits)
next
  fix c assume c: "fst (getNextJob q now) = Some c"
  then obtain k j where s: "fst (scanJobs now (jobs q) (None, None)) = Some (k, j)"
    and cj: "c = claimed now j"
    by (auto simp: getNextJob_def split: option.splits)
  from scanJobs_initial(2)[OF s] obtain pre post where p:
    "jobs q = pre @ (k, j) # post" "isReady now j"
    "\<forall>e \<in> set pre. isReady now (snd e) \<longrightarrow> priority (snd e) < priority j"
    "\<forall>e \<in> set post. isReady now (snd e) \<longrightarrow> priority (snd e) \<le> priority j"
    by blast
  have all: "\<forall>e \<in> set (jobs q). isReady now (snd e) \<longrightarrow> priority (snd e) \<le> priority j"
    using p by auto
  have before: "\<forall>e \<in> set pre. isReady now (snd e) \<longrightarrow> priority (snd e) \<noteq> priority j"
    using p(3) by auto
  have created: "createdInOrder (jobs q) \<longrightarrow>
            (\<forall>e \<in> set (jobs q). isReady now (snd e) \<and> priority (snd e) = priority j \<longrightarrow>
                createdAt j \<le> createdAt (snd e))"
    using p(3) unfolding createdInOrder_def p(1) by (auto simp: sorted_append)
  show "\<exists>pre k j post. jobs q = pre @ (k, j) # post \<and> c = claimed now j \<and>
         status j = Waiting \<and> processAt j \<le> now \<and>
         (\<forall>e \<in> set (jobs q). isReady now (snd e) \<longrightarrow> priority (snd e) \<le> priority j) \<and>
         (\<forall>e \<in> set pre. isReady now (snd e) \<longrightarrow> priority (snd e) \<noteq> priority j) \<and>
         (createdInOrder (jobs q) \<longrightarrow>
            (\<forall>e \<in> set (jobs q). isReady now (snd e) \<and> priority (snd e) = priority j \<longrightarrow>
                createdAt j \<le> createdAt (snd e)))"
    using p(1,2) cj all before created unfolding isReady_def by blast
qed

theorem getNextJob_selects_first_stored_witness:
  "createdInOrder (jobs threeJobs) \<and>
   map_option jobId (fst (getNextJob threeJobs 10)) = Some ''b'' \<and>
   (\<exists>pre k j post. jobs threeJobs = pre @ (k, j) # post \<and>
      fst (getNextJob threeJobs 10) = Some (claimed 10 j) \<and> status j = Waiting \<and> processAt j \<le> 10 \<and>
      (\<forall>e \<in> set (jobs threeJobs). isReady 10 (snd e) \<longrightarrow> priority (snd e) \<le> priority j) \<and>
      (\<forall>e \<in> set (jobs threeJobs). isReady 10 (snd e) \<and> priority (snd e) = priority j \<longrightarrow>
                createdAt j \<le> createdAt (snd e)))"
proof -
  have c: "createdInOrder (jobs threeJobs)"
    by (simp add: createdInOrder_def ex_defs)
  have i: "map_option jobId (fst (getNextJob threeJobs 10)) = Some ''b''"
    by (simp add: run_defs ex_defs)
  then obtain cj where s: "fst (getNextJob threeJobs 10) = Some cj" by auto
  from getNextJob_selects_first_stored[of threeJobs 10] s c i show ?thesis
    by blast
qed


subsection \<open>C2: the retry ceiling\<close>




subsection \<open>C3: the retry transition and its backoff\<close>




subsection \<open>C4: \<open>add\<close> with an empty job type\<close>






subsection \<open>C5: a job without a registered processor\<close>




subsection \<open>C6: \<open>remove\<close>\<close>

text \<open>
  Claim C6: \<open>remove\<close> returns \<open>false\<close> and leaves the queue as it was when the id is
  not stored or the stored job is active; when the stored job is waiting, completed or
  failed it returns \<open>true\<close>, the id is no longer stored and every other id maps to the
  job it mapped to. Every branch returns a value: nothing is thrown.
\<close>


theorem remove_refuses_active:
  "(map_of (jobs q) k = None \<longrightarrow> remove q k now = (False, q)) \<and>
   (\<forall>j. map_of (jobs q) k = Some j \<and> status j = Active \<longrightarrow> remove q k now = (False, q)) \<and>
   (\<forall>j. map_of (jobs q) k = Some j \<and> (status j = Waiting \<or> status j = Completed \<or> status j = Failed) \<longrightarrow>
        fst (remove q k now) = True \<and>
        jobs (snd (remove q k now)) = AList.delete k (jobs q) \<and>
        map_of (jobs (snd (remove q k now))) k = None \<and>
        (\<forall>k'. k' \<noteq> k \<longrightarrow> map_of (jobs (snd (remove q k now))) k' = map_of (jobs q) k'))"
  by (auto simp: remove_def updateStats_def AList.delete_conv')

theorem remove_refuses_active_witness:
  "map_option status (map_of (jobs claimedQueue) ''b'') = Some Active \<and>
   remove claimedQueue ''b'' 15 = (False, claimedQueue) \<and>
   map_option status (map_of (jobs claimedQueue) ''a'') = Some Waiting \<and>
   fst (remove claimedQueue ''a'' 15) = True \<and>
   map_of (jobs (snd (remove claimedQueue ''a'' 15))) ''a'' = None \<and>
   map fst (jobs (snd (remove claimedQueue ''a'' 15))) = [''b'', ''c'']"
proof -
  have b: "map_option status (map_of (jobs claimedQueue) ''b'') = Some Active"
    by (simp add: run_defs ex_defs)
  have a: "map_option status (map_of (jobs claimedQueue) ''a'') = Some Waiting"
    by (simp add: run_defs ex_defs)
  have k: "map fst (jobs claimedQueue) = [''a'', ''b'', ''c'']"
    by (simp add: run_defs ex_defs)
  from remove_refuses_active[of claimedQueue "''b''" 15] remove_refuses_active[of claimedQueue "''a''" 15] a b
  have "remove claimedQueue ''b'' 15 = (False, claimedQueue)"
    and "fst (remove claimedQueue ''a'' 15) = True"
    and "map_of (jobs (snd (remove claimedQueue ''a'' 15))) ''a'' = None"
    and "jobs (snd (remove claimedQueue ''a'' 15)) = AList.delete ''a'' (jobs claimedQueue)"
    by auto
  with a b k show ?thesis by (simp add: AList.delete_keys)
qed


subsection \<open>C7: \<open>clean\<close>\<close>

text \<open>
  Claim C7: \<open>clean(d)\<close> at time \<open>now\<close> keeps, in their order, exactly the entries
  whose job is not both terminal (\<open>Completed\<close> or \<open>Failed\<close>) and updated before
  \<open>now - d\<close>; it returns the number of entries it removed; and a second call with the
  same arguments removes nothing, returns 0 and leaves the queue as it was.
\<close>


theorem clean_removes_old_terminal:
  assumes "distinct (map fst (jobs q))"
  shows "jobs (snd (clean q d now)) =
           filter (\<lambda>(k, j). \<not> ((status j = Completed \<or> status j = Failed) \<and> updatedAt j < now - d)) (jobs q) \<and>
         fst (clean q d now) =
           length (filter (\<lambda>(k, j). (status j = Completed \<or> status j = Failed) \<and> updatedAt j < now - d) (jobs q)) \<and>
         clean (snd (clean q d now)) d now = (0, snd (clean q d now))"
proof -
  let ?c = "now - d"
  let ?kept = "filter (\<lambda>e. \<not> isOld ?c (snd e)) (jobs q)"
  let ?q' = "snd (clean q d now)"
  have j: "jobs ?q' = ?kept"
    by (simp add: clean_def Let_def clean_jobs[OF assms] updateStats_def)
  have c: "fst (clean q d now) = length (filter (\<lambda>e. isOld ?c (snd e)) (jobs q))"
    by (simp add: clean_def Let_def clean_jobs[OF assms])
  have d': "distinct (map fst (jobs ?q'))"
    unfolding j using assms by (simp add: distinct_map_filter)
  have "cleanLoop ?c (jobs ?q') (jobs ?q', 0) = (jobs ?q', 0)"
    unfolding clean_jobs[OF d'] unfolding j by simp
  then have i: "clean ?q' d now = (0, ?q')"
    by (simp add: clean_def Let_def)
  from j c i show ?thesis
    by (simp add: isOld_def case_prod_unfold)
qed

theorem clean_removes_old_terminal_witness:
  "distinct (map fst (jobs completedQueue)) \<and>
   fst (clean completedQueue 5 100) = 1 \<and>
   map fst (jobs (snd (clean completedQueue 5 100))) = [''a'', ''c''] \<and>
   clean (snd (clean completedQueue 5 100)) 5 100 = (0, snd (clean completedQueue 5 100))"
proof -
  have d: "distinct (map fst (jobs completedQueue))"
    by (simp add: run_defs ex_defs)
  from clean_removes_old_terminal[OF d, of 5 100] d show ?thesis
    by (simp add: run_defs ex_defs)
qed


subsection \<open>C8: the listing of \<open>getJobs\<close>\<close>

text \<open>
  Claim C8 says, last, that the order of the listing is the order in which the scheduler
  dispatches the ready jobs. In \<open>tieQueue\<close> the listing puts \<open>b\<close> (created at 5) before
  \<open>a\<close> (created at 10), and a worker that drains the queue at time 20 claims \<open>a\<close>
  before \<open>b\<close>.
\<close>


theorem getJobs_dispatch_order_counterexample:
  "map jobId (getJobs tieQueue None 50) = [''b'', ''a''] \<and>
   map jobId (dispatchOrder 2 tieQueue 20) = [''a'', ''b'']"
  by (simp add: numeral_2_eq_2 ex_defs getJobs_def sortJobs_def compareJobs_def getNextJob_def isReady_def exceeds_def claimed_def)


text \<open>
  Claim C8 as amended: the listing contains only stored jobs that match the filter (all
  of the matching jobs when the limit is at least the number of stored jobs; every job
  matches when no filter is given); it is sorted by priority descending and, within
  equal priority, by \<open>createdAt\<close> ascending; it has at most \<open>limit\<close> elements, the limit
  being a count. Whenever \<open>createdAt\<close> does not decrease along the insertion order of the
  map, the listing without filter or of the waiting jobs, restricted to the ready jobs,
  is the sequence of jobs that successive calls of \<open>getNextJob\<close> claim.
\<close>


theorem getJobs_sorted_listing:
  "set (getJobs q f limit) \<subseteq> {j \<in> snd ` set (jobs q). f = None \<or> f = Some (status j)} \<and>
   (length (jobs q) \<le> limit \<longrightarrow>
      mset (getJobs q f limit) =
        mset (filter (\<lambda>j. f = None \<or> f = Some (status j)) (map snd (jobs q)))) \<and>
   sorted_wrt (\<lambda>a b. priority b < priority a \<or> (priority a = priority b \<and> createdAt a \<le> createdAt b))
     (getJobs q f limit) \<and>
   length (getJobs q f limit) \<le> limit \<and>
   (distinct (map fst (jobs q)) \<and> createdInOrder (jobs q) \<and> (f = None \<or> f = Some Waiting) \<longrightarrow>
      dispatchOrder (length (jobs q)) q now =
        map (claimed now) (filter (isReady now) (getJobs q f (length (jobs q)))))"
proof -
  let ?m = "\<lambda>j. f = None \<or> f = Some (status j)"
  let ?all = "map snd (jobs q)"
  have g: "getJobs q f n = take n (sort_key jobKey (filter ?m ?all))" for n
    by (cases f) (auto simp: getJobs_def sortJobs_sort_key intro!: arg_cong[where f="\<lambda>x. take n (sort_key jobKey x)"] filter_cong)
  have lf: "length (filter ?m ?all) \<le> length (jobs q)"
    using length_filter_le[of ?m ?all] by (simp only: length_map)
  have 1: "set (getJobs q f limit) \<subseteq> {j \<in> snd ` set (jobs q). f = None \<or> f = Some (status j)}"
    unfolding g using set_take_subset[of limit "sort_key jobKey (filter ?m ?all)"] by auto
  have 2: "length (jobs q) \<le> limit \<longrightarrow> mset (getJobs q f limit) = mset (filter ?m ?all)"
  proof
    assume "length (jobs q) \<le> limit"
    then have "length (sort_key jobKey (filter ?m ?all)) \<le> limit"
      using lf by (simp only: length_sort)
    then show "mset (getJobs q f limit) = mset (filter ?m ?all)"
      unfolding g by simp
  qed
  have "sorted_wrt listedBefore (getJobs q f limit)"
    unfolding g using sorted_wrt_sortJobs[of "filter ?m ?all"]
    by (simp add: sortJobs_sort_key)
  then have 3: "sorted_wrt (\<lambda>a b. priority b < priority a \<or> (priority a = priority b \<and> createdAt a \<le> createdAt b))
     (getJobs q f limit)"
    by (simp add: listedBefore_def[abs_def])
  have 4: "length (getJobs q f limit) \<le> limit"
    unfolding g by simp
  have 5: "distinct (map fst (jobs q)) \<and> createdInOrder (jobs q) \<and> (f = None \<or> f = Some Waiting) \<longrightarrow>
      dispatchOrder (length (jobs q)) q now =
        map (claimed now) (filter (isReady now) (getJobs q f (length (jobs q))))"
  proof
    assume a: "distinct (map fst (jobs q)) \<and> createdInOrder (jobs q) \<and> (f = None \<or> f = Some Waiting)"
    have l: "length (filter (isReady now) ?all) \<le> length (jobs q)"
      using length_filter_le[of "isReady now" ?all] by (simp only: length_map)
    have "length (sort_key jobKey (filter ?m ?all)) \<le> length (jobs q)"
      using lf by (simp only: length_sort)
    then have "getJobs q f (length (jobs q)) = sort_key jobKey (filter ?m ?all)"
      unfolding g by simp
    moreover have "filter (isReady now) (filter ?m ?all) = filter (isReady now) ?all"
      using a by (auto simp: isReady_def intro!: filter_cong)
    ultimately have "filter (isReady now) (getJobs q f (length (jobs q))) =
        sort_key jobKey (filter (isReady now) ?all)"
      by (simp add: filter_sort)
    then show "dispatchOrder (length (jobs q)) q now =
        map (claimed now) (filter (isReady now) (getJobs q f (length (jobs q))))"
      using dispatchOrder_sorted[of q now "length (jobs q)"] a l by simp
  qed
  from 1 2 3 4 5 show ?thesis by blast
qed

theorem getJobs_sorted_listing_witness:
  "distinct (map fst (jobs threeJobs)) \<and> createdInOrder (jobs threeJobs) \<and>
   map jobId (getJobs threeJobs None 2) = [''b'', ''c''] \<and>
   map jobId (dispatchOrder (length (jobs threeJobs)) threeJobs 10) = [''b'', ''c'', ''a''] \<and>
   dispatchOrder (length (jobs threeJobs)) threeJobs 10 =
     map (claimed 10) (filter (isReady 10) (getJobs threeJobs None (length (jobs threeJobs))))"
proof -
  have d: "distinct (map fst (jobs threeJobs))" by (simp add: ex_defs)
  have c: "createdInOrder (jobs threeJobs)"
    by (simp add: createdInOrder_def ex_defs)
  have l: "map jobId (getJobs threeJobs None 2) = [''b'', ''c'']"
    by (simp add: ex_defs getJobs_def sortJobs_def compareJobs_def numeral_2_eq_2)
  have o: "map jobId (dispatchOrder (length (jobs threeJobs)) threeJobs 10) = [''b'', ''c'', ''a'']"
    by (simp add: ex_defs run_defs)
  from getJobs_sorted_listing[of threeJobs None 2 10] d c l o show ?thesis by blast
qed


subsection \<open>C9: the delayed count of \<open>getStats\<close>\<close>

text \<open>
  Claim C9: whatever the counters stored in \<open>this.stats\<close> are, the delayed count
  \<open>getStats\<close> reports at time \<open>now\<close> is the number of stored jobs that are waiting with
  \<open>processAt > now\<close>.
\<close>


theorem getStats_delayed_is_derived:
  "delayedJobs (fst (getStats (q\<lparr>stats := s\<rparr>) now)) =
     int (length (filter (\<lambda>(k, j). status j = Waiting \<and> now < processAt j) (jobs q)))"
  by (simp add: getStats_def updateStats_def countJobs_def Let_def filter_map o_def case_prod_unfold)

theorem getStats_delayed_is_derived_witness:
  "delayedJobs (stats delayedQueue) = 1 \<and>
   delayedJobs (fst (getStats delayedQueue 50)) = 1 \<and>
   delayedJobs (fst (getStats delayedQueue 150)) = 0"
proof -
  have s: "delayedQueue\<lparr>stats := stats delayedQueue\<rparr> = delayedQueue" by simp
  have "delayedJobs (stats delayedQueue) = 1"
    by (simp add: delayedQueue_def ex_defs)
  with getStats_delayed_is_derived[where q=delayedQueue and s="stats delayedQueue" and now=50]
    getStats_delayed_is_derived[where q=delayedQueue and s="stats delayedQueue" and now=150]
  show ?thesis unfolding s by (simp add: delayedQueue_def ex_defs)
qed


subsection \<open>C10: progress is clamped\<close>

text \<open>
  Claim C10: after \<open>updateJobProgress\<close> with any integer \<open>percent\<close>, the progress of the
  job is \<open>max 0 (min 100 percent)\<close>, a value between 0 and 100.
\<close>


theorem updateJobProgress_in_range:
  assumes "map_of (jobs q) k = Some j"
  shows "\<exists>j'. map_of (jobs (updateJobProgress q k percent now)) k = Some j' \<and>
           progress j' = max 0 (min 100 percent) \<and> 0 \<le> progress j' \<and> progress j' \<le> 100"
  using assms by (simp add: updateJobProgress_def AList.map_of_map_entry)

theorem updateJobProgress_in_range_witness:
  "map_of (jobs claimedQueue) ''b'' \<noteq> None \<and>
   map_option progress (map_of (jobs (updateJobProgress claimedQueue ''b'' 150 12)) ''b'') = Some 100 \<and>
   map_option progress (map_of (jobs (updateJobProgress claimedQueue ''b'' (- 3) 12)) ''b'') = Some 0"
proof -
  obtain j where h: "map_of (jobs claimedQueue) ''b'' = Some j"
    by (simp add: run_defs ex_defs)
  from updateJobProgress_in_range[OF h, of 150 12] updateJobProgress_in_range[OF h, of "- 3" 12] h
  show ?thesis by auto
qed

end
